theory Spec2Isabelle
  imports Main
begin

section \<open>Nodes, errors and inference contexts\<close>

text \<open>
  The embedding follows \<^verbatim>\<open>astroid/interpreter/objects.py\<close>. Values of the
  analysed program are nodes. The runtime objects of the module (\<open>Instance\<close>,
  \<open>UnboundMethod\<close>, \<open>BoundMethod\<close>, \<open>Super\<close>) are constructors next to the
  tree nodes they wrap. A class is \<open>ClassDef\<close> with its qualified name; a function
  declaration carries the attributes that the module reads from it.
\<close>

type_synonym name = string

text \<open>A member of \<^verbatim>\<open>decoratornames()\<close>: a qualified name, or \<^verbatim>\<open>Uninferable\<close>.\<close>

datatype dname = QName string | UninferableName

record func =
  fname :: string
  ftype :: string
  decoratornames :: "dname list"
  frame_qname :: string
  in_class_scope :: bool
  argnames :: "string list"

datatype node =
    Uninferable
  | Const string
  | ClassDef string
  | FunctionDef func
  | Lambda func
  | Call "node list"
  | Instance node
  | UnboundMethod node
  | BoundMethod node node
  | Super (mro_pointer: node) (mro_type: node) (class_based: bool) (self_class: node) (scope: func)

fun is_ClassDef :: "node \<Rightarrow> bool" where
  "is_ClassDef (ClassDef c) = True"
| "is_ClassDef n = False"

fun is_Instance :: "node \<Rightarrow> bool" where
  "is_Instance (Instance p) = True"
| "is_Instance n = False"

text \<open>
  The exceptions the module raises or catches. \<open>AttributeInferenceError\<close> carries its
  target, the attribute and what the handler copied from the error it replaces
  (\<^verbatim>\<open>super_=exc.super_\<close>, or \<^verbatim>\<open>mros=exc.mros, cls=exc.cls\<close>). \<open>SuperError\<close> carries the
  check of \<^verbatim>\<open>super_mro\<close> that raised it and its \<^verbatim>\<open>super_\<close>.
\<close>

datatype cause = NoCause | SuperCause node | MroCause

datatype super_check = FirstArgument | SecondArgument | OldStyleClass | PointerNotInMro

datatype error =
    AttributeInferenceError node name cause
  | InferenceError
  | SuperError super_check node
  | MroError
  | StopIteration
  | AttributeError

fun is_AttributeInferenceError :: "error \<Rightarrow> bool" where
  "is_AttributeInferenceError (AttributeInferenceError t a c) = True"
| "is_AttributeInferenceError e = False"

text \<open>The result of \<^verbatim>\<open>bool_value()\<close>: a boolean or \<^verbatim>\<open>Uninferable\<close>.\<close>

datatype truth = Truth bool | UninferableTruth

text \<open>
  Modelled from the spec: the inference context (\<^verbatim>\<open>astroid.context\<close> is not under
  src/). It has the fields \<^verbatim>\<open>boundnode\<close> and \<^verbatim>\<open>callcontext\<close> and the visited set of
  (owner, name) pairs; \<^verbatim>\<open>push\<close> returns true if the pair was already visited and adds
  it otherwise; \<^verbatim>\<open>clone()\<close> copies the fields and shares the visited set, which is
  never popped. The visited set is therefore the state that every inference step
  receives and returns; the record holds the fields a clone owns.
\<close>

record ctx =
  boundnode :: "node option"
  callcontext :: "node list option"

definition InferenceContext :: ctx where
  "InferenceContext = \<lparr>boundnode = None, callcontext = None\<rparr>"

definition clone :: "ctx \<Rightarrow> ctx" where
  "clone c = c"

type_synonym vis = "(node \<times> name) set"

definition push :: "vis \<Rightarrow> node \<times> name \<Rightarrow> bool \<times> vis" where
  "push v p = (if p \<in> v then (True, v) else (False, insert p v))"

section \<open>Generators\<close>

text \<open>
  A generator is modelled by its complete run from a given visited set: the values it
  yields, in order, the exception that ends it (if any), and the visited set it leaves.
  \<open>None\<close> means the run does not return. A consumer that stops early (\<^verbatim>\<open>next\<close>)
  reads the first value of the run.
\<close>

type_synonym 'a run = "'a list \<times> error option"

type_synonym 'a gen = "vis \<Rightarrow> ('a run \<times> vis) option"

definition gen_stop :: "'a gen" where
  "gen_stop v = Some (([], None), v)"

definition gen_yield :: "'a \<Rightarrow> 'a gen" where
  "gen_yield a v = Some (([a], None), v)"

definition gen_raise :: "error \<Rightarrow> 'a gen" where
  "gen_raise e v = Some (([], Some e), v)"

text \<open>The run \<open>r\<close>, continued by \<open>g\<close> unless \<open>r\<close> ended in an exception.\<close>

definition run_then :: "'a run \<times> vis \<Rightarrow> 'a gen \<Rightarrow> ('a run \<times> vis) option" where
  "run_then r g =
     (case r of
        ((ys, Some e), v1) \<Rightarrow> Some ((ys, Some e), v1)
      | ((ys, None), v1) \<Rightarrow>
          (case g v1 of
             None \<Rightarrow> None
           | Some ((zs, e), v2) \<Rightarrow> Some ((ys @ zs, e), v2)))"

definition gen_seq :: "'a gen \<Rightarrow> 'a gen \<Rightarrow> 'a gen" where
  "gen_seq g1 g2 v = (case g1 v of None \<Rightarrow> None | Some r \<Rightarrow> run_then r g2)"

text \<open>\<^verbatim>\<open>for a in xs: yield from body(a)\<close> over a list.\<close>

fun gen_each :: "'a list \<Rightarrow> ('a \<Rightarrow> 'b gen) \<Rightarrow> 'b gen" where
  "gen_each [] body = gen_stop"
| "gen_each (a # as) body = gen_seq (body a) (gen_each as body)"

text \<open>
  \<^verbatim>\<open>for a in g: yield from body(a)\<close> over a generator: the values of \<open>g\<close> go through
  the body; the exception that ended \<open>g\<close> is raised after them.
\<close>

definition gen_for :: "'a gen \<Rightarrow> ('a \<Rightarrow> 'b gen) \<Rightarrow> 'b gen" where
  "gen_for g body v =
     (case g v of
        None \<Rightarrow> None
      | Some ((as, e), v1) \<Rightarrow>
          gen_seq (gen_each as body) (case e of None \<Rightarrow> gen_stop | Some err \<Rightarrow> gen_raise err) v1)"

text \<open>
  \<^verbatim>\<open>try: yield from g  except ...: yield from handler\<close>: the values \<open>g\<close> yielded stay;
  where the handler has a clause for the exception, the run continues with it.
\<close>

definition gen_try :: "'a gen \<Rightarrow> (error \<Rightarrow> 'a gen option) \<Rightarrow> 'a gen" where
  "gen_try g handler v =
     (case g v of
        None \<Rightarrow> None
      | Some ((ys, None), v1) \<Rightarrow> Some ((ys, None), v1)
      | Some ((ys, Some e), v1) \<Rightarrow>
          (case handler e of
             None \<Rightarrow> Some ((ys, Some e), v1)
           | Some h \<Rightarrow> run_then ((ys, None), v1) h))"

text \<open>
  A call that makes its own context when it is given none
  (\<^verbatim>\<open>if not context: context = InferenceContext()\<close>): the new context has a visited
  set of its own, which starts empty and is dropped with it.
\<close>

definition with_context :: "ctx option \<Rightarrow> (ctx \<Rightarrow> 'a gen) \<Rightarrow> 'a gen" where
  "with_context cx body v =
     (case cx of
        Some c \<Rightarrow> body c v
      | None \<Rightarrow>
          (case body InferenceContext {} of
             None \<Rightarrow> None
           | Some (r, v1) \<Rightarrow> Some (r, v)))"

section \<open>The surrounding system\<close>

text \<open>
  What the module calls and does not define is a field of \<open>ext\<close>: the class
  descriptor's lookups, statement inference, the tree nodes' own methods, the object
  models' special attributes and the interpreter version. The module's functions take
  it as their first argument, so every theorem holds for every behaviour of these
  collaborators.
\<close>

record ext =
  py3 :: bool
  instance_attr :: "node \<Rightarrow> name \<Rightarrow> ctx option \<Rightarrow> error + node list"
  special_attributes :: "node \<Rightarrow> name \<Rightarrow> node option"
  class_getattr :: "node \<Rightarrow> name \<Rightarrow> ctx option \<Rightarrow> error + node list"
  class_igetattr :: "node \<Rightarrow> name \<Rightarrow> ctx option \<Rightarrow> node gen"
  class_locals :: "node \<Rightarrow> name \<Rightarrow> node option"
  newstyle :: "node \<Rightarrow> bool"
  mro :: "node \<Rightarrow> error + node list"
  infer_stmts :: "node run \<Rightarrow> ctx option \<Rightarrow> node \<Rightarrow> node gen"
  node_infer :: "node \<Rightarrow> ctx option \<Rightarrow> node gen"
  node_infer_call_result :: "node \<Rightarrow> node \<Rightarrow> ctx option \<Rightarrow> node gen"
  node_callable :: "node \<Rightarrow> bool"
  node_has_infer_call_result :: "node \<Rightarrow> bool"
  node_bool_value :: "node \<Rightarrow> error + truth"
  node_proxied :: "node \<Rightarrow> node option"

section \<open>Property detection\<close>

definition BUILTINS :: "ext \<Rightarrow> string" where
  "BUILTINS x = (if py3 x then ''builtins'' else ''__builtin__'')"


definition PROPERTIES :: "ext \<Rightarrow> string list" where
  "PROPERTIES x = [BUILTINS x @ ''.property'', ''abc.abstractproperty'']"

definition POSSIBLE_PROPERTIES :: "string list" where
  "POSSIBLE_PROPERTIES =
     [''cached_property'', ''cachedproperty'', ''lazyproperty'', ''lazy_property'',
      ''reify'', ''lazyattribute'', ''lazy_attribute'', ''LazyProperty'', ''lazy'']"

text \<open>\<^verbatim>\<open>name.split(".")[-1]\<close>: what follows the last dot.\<close>

definition last_component :: "string \<Rightarrow> string" where
  "last_component s = rev (takeWhile (\<lambda>c. c \<noteq> CHR ''.'') (rev s))"

definition stripped :: "dname list \<Rightarrow> string list" where
  "stripped names = concat (map (\<lambda>d. case d of QName s \<Rightarrow> [last_component s] | UninferableName \<Rightarrow> []) names)"

definition is_property :: "ext \<Rightarrow> func \<Rightarrow> bool" where
  "is_property x meth =
     (if list_ex (\<lambda>p. QName p \<in> set (decoratornames meth)) (PROPERTIES x) then True
      else list_ex (\<lambda>n. n \<in> set (stripped (decoratornames meth))) POSSIBLE_PROPERTIES)"

section \<open>BaseInstance.getattr\<close>

text \<open>
  \<open>getattr x p name context lookupclass\<close> is \<^verbatim>\<open>self.getattr(name, context, lookupclass)\<close>
  for \<open>self = Instance p\<close>, whose \<^verbatim>\<open>_proxied\<close> is \<open>p\<close>.
\<close>

definition getattr :: "ext \<Rightarrow> node \<Rightarrow> name \<Rightarrow> ctx option \<Rightarrow> bool \<Rightarrow> error + node list" where
  "getattr x p name cx lookupclass =
     (case instance_attr x p name cx of
        Inl e \<Rightarrow>
          if is_AttributeInferenceError e then
            (case special_attributes x (Instance p) name of
               Some a \<Rightarrow> Inr [a]
             | None \<Rightarrow>
                 if lookupclass then class_getattr x p name cx
                 else Inl (AttributeInferenceError (Instance p) name NoCause))
          else Inl e
      | Inr vals \<Rightarrow>
          if lookupclass then
            (case class_getattr x p name cx of
               Inr cvals \<Rightarrow> Inr (vals @ cvals)
             | Inl e \<Rightarrow> if is_AttributeInferenceError e then Inr vals else Inl e)
          else Inr vals)"

section \<open>UnboundMethod and BoundMethod\<close>

text \<open>
  \<^verbatim>\<open>UnboundMethod.infer_call_result(caller, context)\<close> for a method whose \<^verbatim>\<open>_proxied\<close> is
  \<open>m\<close>. The test for \<^verbatim>\<open>__new__\<close> of the builtin \<^verbatim>\<open>object\<close> reads the name of the proxied
  function and the qualified name of its frame; a lambda is named \<^verbatim>\<open><lambda>\<close>. The
  argument list is read from a call node; a caller of another kind has none. An
  argument that infers to \<^verbatim>\<open>Uninferable\<close> stays \<^verbatim>\<open>Uninferable\<close>.
\<close>

definition is_object_new :: "ext \<Rightarrow> node \<Rightarrow> bool" where
  "is_object_new x m =
     (case m of
        FunctionDef f \<Rightarrow> fname f = ''__new__'' \<and> frame_qname f = BUILTINS x @ ''.object''
      | _ \<Rightarrow> False)"

definition unbound_infer_call_result :: "ext \<Rightarrow> node \<Rightarrow> node \<Rightarrow> ctx option \<Rightarrow> node gen" where
  "unbound_infer_call_result x m caller cx =
     (if is_object_new x m then
        (case caller of
           Call args \<Rightarrow>
             (case args of
                [] \<Rightarrow> gen_stop
              | a # rest \<Rightarrow>
                  gen_for (node_infer x a None)
                    (\<lambda>r. gen_yield (if r = Uninferable then r else Instance r)))
         | _ \<Rightarrow> gen_raise AttributeError)
      else node_infer_call_result x m caller cx)"

text \<open>
  \<^verbatim>\<open>BoundMethod.infer_call_result(caller, context=None)\<close> for a method with \<^verbatim>\<open>_proxied\<close>
  \<open>m\<close> and receiver \<open>bound\<close>.
\<close>

definition bound_infer_call_result ::
    "ext \<Rightarrow> node \<Rightarrow> node \<Rightarrow> node \<Rightarrow> ctx option \<Rightarrow> node gen" where
  "bound_infer_call_result x m bound caller cx =
     with_context cx
       (\<lambda>c. unbound_infer_call_result x m caller (Some ((clone c)\<lparr>boundnode := Some bound\<rparr>)))"

section \<open>BaseInstance.igetattr and its re-wrapping rule\<close>

text \<open>
  One step of \<^verbatim>\<open>_wrap_attr\<close> for \<open>self = Instance p\<close>. \<^verbatim>\<open>isinstance(attr, UnboundMethod)\<close>
  holds for a \<open>BoundMethod\<close> too, whose \<^verbatim>\<open>infer_call_result\<close> is its own.
  \<^verbatim>\<open>decoratornames()\<close> is forwarded to the proxied function declaration; another
  proxied node has no such attribute. Only a lambda is named \<^verbatim>\<open><lambda>\<close>.
\<close>

definition wrap_one :: "ext \<Rightarrow> node \<Rightarrow> ctx option \<Rightarrow> node \<Rightarrow> node gen" where
  "wrap_one x p cx attr =
     (case attr of
        UnboundMethod m \<Rightarrow>
          (case m of
             FunctionDef f \<Rightarrow>
               if is_property x f then unbound_infer_call_result x m (Instance p) cx
               else gen_yield (BoundMethod m (Instance p))
           | _ \<Rightarrow> gen_raise AttributeError)
      | BoundMethod m b \<Rightarrow>
          (case m of
             FunctionDef f \<Rightarrow>
               if is_property x f then bound_infer_call_result x m b (Instance p) cx
               else gen_yield (BoundMethod m (Instance p))
           | _ \<Rightarrow> gen_raise AttributeError)
      | Lambda f \<Rightarrow>
          if in_class_scope f \<and> argnames f \<noteq> [] \<and> hd (argnames f) = ''self''
          then gen_yield (BoundMethod attr (Instance p))
          else gen_yield attr
      | _ \<Rightarrow> gen_yield attr)"

definition wrap_attr :: "ext \<Rightarrow> node \<Rightarrow> node gen \<Rightarrow> ctx option \<Rightarrow> node gen" where
  "wrap_attr x p attrs cx = gen_for attrs (wrap_one x p cx)"

text \<open>A list, iterated as it is.\<close>

definition gen_list :: "'a list \<Rightarrow> 'a gen" where
  "gen_list as v = Some ((as, None), v)"

text \<open>
  \<^verbatim>\<open>self.igetattr(name, context)\<close> for \<open>self = Instance p\<close>. \<^verbatim>\<open>infer_stmts\<close> consumes the
  generator of wrapped attributes, so it receives that generator's run.
\<close>

definition igetattr :: "ext \<Rightarrow> node \<Rightarrow> name \<Rightarrow> ctx option \<Rightarrow> node gen" where
  "igetattr x p name cx =
     with_context cx
       (\<lambda>c. gen_try
          (\<lambda>v. case push v (p, name) of
                  (True, v1) \<Rightarrow> gen_stop v1
                | (False, v1) \<Rightarrow>
                    (case getattr x p name (Some c) False of
                       Inl e \<Rightarrow> gen_raise e v1
                     | Inr attrs \<Rightarrow>
                         (case wrap_attr x p (gen_list attrs) (Some c) v1 of
                            None \<Rightarrow> None
                          | Some (r, v2) \<Rightarrow> infer_stmts x r (Some c) (Instance p) v2)))
          (\<lambda>e. if is_AttributeInferenceError e then
                  Some (gen_try
                          (wrap_attr x p (class_igetattr x p name (Some c)) (Some c))
                          (\<lambda>e2. if is_AttributeInferenceError e2
                                 then Some (gen_raise InferenceError) else None))
                else None))"

section \<open>Instance.bool_value\<close>












section \<open>Super\<close>

text \<open>
  \<^verbatim>\<open>getattr(self.type, '_proxied', None)\<close>: the objects of this module hold their
  proxied node; the other nodes answer through \<open>ext\<close>.
\<close>

definition proxied_attr :: "ext \<Rightarrow> node \<Rightarrow> node option" where
  "proxied_attr x n =
     (case n of
        Instance q \<Rightarrow> Some q
      | UnboundMethod m \<Rightarrow> Some m
      | BoundMethod m b \<Rightarrow> Some m
      | _ \<Rightarrow> node_proxied x n)"

text \<open>An attribute that an instance does not have is read from its proxied node.\<close>

fun forwarded :: "node \<Rightarrow> node" where
  "forwarded (Instance q) = forwarded q"
| "forwarded n = n"

text \<open>\<^verbatim>\<open>mro.index(a)\<close>, for \<open>a\<close> in the list.\<close>

definition index_of :: "'a list \<Rightarrow> 'a \<Rightarrow> nat" where
  "index_of xs a = length (takeWhile (\<lambda>b. b \<noteq> a) xs)"

text \<open>
  \<^verbatim>\<open>super_mro\<close> from the check of the class style on, for the resolved \<open>target\<close>. The
  result comes with the object, whose \<^verbatim>\<open>_class_based\<close> flag the method may have set.
\<close>

definition mro_after_pointer :: "ext \<Rightarrow> node \<Rightarrow> node \<Rightarrow> (error + node list) \<times> node" where
  "mro_after_pointer x s target =
     (if \<not> newstyle x (forwarded target) then (Inl (SuperError OldStyleClass s), s)
      else
        (case mro x (forwarded target) of
           Inl e \<Rightarrow> (Inl e, s)
         | Inr m \<Rightarrow>
             if mro_pointer s \<notin> set m then (Inl (SuperError PointerNotInMro s), s)
             else (Inr (drop (index_of m (mro_pointer s) + 1) m), s)))"

definition super_mro :: "ext \<Rightarrow> node \<Rightarrow> (error + node list) \<times> node" where
  "super_mro x s =
     (if \<not> is_ClassDef (mro_pointer s) then (Inl (SuperError FirstArgument s), s)
      else if is_ClassDef (mro_type s) then
        mro_after_pointer x
          (Super (mro_pointer s) (mro_type s) True (self_class s) (scope s)) (mro_type s)
      else
        (case proxied_attr x (mro_type s) of
           None \<Rightarrow> (Inl (SuperError SecondArgument s), s)
         | Some q \<Rightarrow>
             if is_Instance q \<or> is_ClassDef q then mro_after_pointer x s q
             else (Inl (SuperError SecondArgument s), s)))"

text \<open>What \<^verbatim>\<open>Super.igetattr\<close> yields for one inferred declaration found in \<open>cls\<close>.\<close>

definition super_wrap :: "ext \<Rightarrow> node \<Rightarrow> node \<Rightarrow> ctx option \<Rightarrow> node \<Rightarrow> node gen" where
  "super_wrap x s cls cx inferred =
     (case inferred of
        FunctionDef f \<Rightarrow>
          if ftype f = ''classmethod'' then gen_yield (BoundMethod inferred cls)
          else if ftype (scope s) = ''classmethod'' \<and> ftype f = ''method'' then gen_yield inferred
          else if class_based s \<or> ftype f = ''staticmethod'' then gen_yield inferred
          else if is_property x f then node_infer_call_result x inferred s cx
          else gen_yield (BoundMethod inferred cls)
      | _ \<Rightarrow> gen_yield inferred)"

text \<open>
  \<^verbatim>\<open>Super.igetattr(name, context)\<close>. \<^verbatim>\<open>cls.locals\<close> and \<^verbatim>\<open>cls[name]\<close> are \<open>class_locals\<close>:
  the declaration of \<open>name\<close> in the class, if it has one. The flag \<^verbatim>\<open>found\<close> is set for
  a class of the MRO that declares the name.
\<close>

definition super_igetattr :: "ext \<Rightarrow> node \<Rightarrow> name \<Rightarrow> ctx option \<Rightarrow> node gen" where
  "super_igetattr x s name cx =
     (case special_attributes x s name of
        Some a \<Rightarrow> gen_yield a
      | None \<Rightarrow>
          (case super_mro x s of
             (Inl e, s1) \<Rightarrow>
               (case e of
                  SuperError chk sobj \<Rightarrow>
                    gen_raise (AttributeInferenceError s1 name (SuperCause sobj))
                | MroError \<Rightarrow> gen_raise (AttributeInferenceError s1 name MroCause)
                | _ \<Rightarrow> gen_raise e)
           | (Inr m, s1) \<Rightarrow>
               gen_seq
                 (gen_each m
                    (\<lambda>cls. case class_locals x cls name of
                             None \<Rightarrow> gen_stop
                           | Some stmt \<Rightarrow>
                               gen_for (infer_stmts x ([stmt], None) cx s1)
                                 (super_wrap x s1 cls cx)))
                 (if list_ex (\<lambda>cls. class_locals x cls name \<noteq> None) m then gen_stop
                  else gen_raise (AttributeInferenceError s1 name NoCause))))"

section \<open>A world without declarations\<close>

text \<open>A surrounding system in which no class declares anything.\<close>

definition base_ext :: ext where
  "base_ext =
     \<lparr>py3 = True,
      instance_attr = (\<lambda>p n cx. Inl (AttributeInferenceError p n NoCause)),
      special_attributes = (\<lambda>s n. None),
      class_getattr = (\<lambda>p n cx. Inl (AttributeInferenceError p n NoCause)),
      class_igetattr = (\<lambda>p n cx. gen_raise (AttributeInferenceError p n NoCause)),
      class_locals = (\<lambda>p n. None),
      newstyle = (\<lambda>p. True),
      mro = (\<lambda>p. Inr [p]),
      infer_stmts = (\<lambda>r cx frame v. Some (r, v)),
      node_infer = (\<lambda>n cx. gen_yield n),
      node_infer_call_result = (\<lambda>m caller cx. gen_stop),
      node_callable = (\<lambda>n. False),
      node_has_infer_call_result = (\<lambda>n. False),
      node_bool_value = (\<lambda>n. Inr UninferableTruth),
      node_proxied = (\<lambda>n. None)\<rparr>"

section \<open>A model of function-call inference\<close>

text \<open>
  Modelled from the spec: the inference of a function declaration's call result and of
  statements (\<^verbatim>\<open>FunctionDef.infer_call_result\<close> and \<^verbatim>\<open>infer_stmts\<close> are not under src/).
  A program gives, for each class and name, the declarations found on the instance and
  on the class, and for each function declaration the expressions it returns: a
  literal value, the receiver, or an attribute of what another expression infers to.
  Inferring an attribute of an instance calls \<^verbatim>\<open>igetattr\<close> on it with the context of
  the call, which is how a property getter reaches back into the module. The fuel
  bounds the depth of function calls; a call without fuel does not return.
\<close>

datatype expr = Lit node | Self | Attr expr name

record program =
  instance_attrs :: "((node \<times> name) \<times> node list) list"
  class_attrs :: "((node \<times> name) \<times> node list) list"
  returns :: "(func \<times> expr list) list"

definition table_getattr :: "((node \<times> name) \<times> node list) list \<Rightarrow> node \<Rightarrow> name \<Rightarrow> error + node list" where
  "table_getattr tab p n =
     (case map_of tab (p, n) of
        Some (a # as) \<Rightarrow> Inr (a # as)
      | _ \<Rightarrow> Inl (AttributeInferenceError p n NoCause))"

text \<open>A function found on a class is offered as an unbound method.\<close>

definition function_to_method :: "node \<Rightarrow> node" where
  "function_to_method n = (case n of FunctionDef f \<Rightarrow> UnboundMethod n | _ \<Rightarrow> n)"

definition program_ext :: "program \<Rightarrow> ext" where
  "program_ext P =
     base_ext
       \<lparr>instance_attr := (\<lambda>p n cx. table_getattr (instance_attrs P) p n),
        class_getattr := (\<lambda>p n cx. table_getattr (class_attrs P) p n),
        class_igetattr :=
          (\<lambda>p n cx. case table_getattr (class_attrs P) p n of
                       Inl e \<Rightarrow> gen_raise e
                     | Inr as \<Rightarrow> gen_list (map function_to_method as)),
        infer_stmts :=
          (\<lambda>r cx frame v.
             case r of
               ([], None) \<Rightarrow> Some (([], Some InferenceError), v)
             | _ \<Rightarrow> Some (r, v))\<rparr>"

fun infer_expr ::
    "(node \<Rightarrow> name \<Rightarrow> ctx option \<Rightarrow> node gen) \<Rightarrow> func \<Rightarrow> ctx option \<Rightarrow> expr \<Rightarrow> node gen" where
  "infer_expr ig f cx (Lit n) = gen_yield n"
| "infer_expr ig f cx Self =
     gen_yield
       (case cx of
          Some c \<Rightarrow>
            (case boundnode c of
               Some b \<Rightarrow> b
             | None \<Rightarrow> Instance (ClassDef (frame_qname f)))
        | None \<Rightarrow> Instance (ClassDef (frame_qname f)))"
| "infer_expr ig f cx (Attr e n) =
     gen_for (infer_expr ig f cx e)
       (\<lambda>owner. case owner of Instance p \<Rightarrow> ig p n cx | _ \<Rightarrow> gen_yield Uninferable)"

definition returns_of :: "program \<Rightarrow> func \<Rightarrow> expr list" where
  "returns_of P f = (case map_of (returns P) f of Some es \<Rightarrow> es | None \<Rightarrow> [])"

fun engine :: "nat \<Rightarrow> program \<Rightarrow> ext" where
  "engine 0 P = (program_ext P)\<lparr>node_infer_call_result := (\<lambda>m caller cx v. None)\<rparr>"
| "engine (Suc k) P =
     (program_ext P)
       \<lparr>node_infer_call_result :=
          (\<lambda>m caller cx.
             case m of
               FunctionDef f \<Rightarrow> gen_each (returns_of P f) (infer_expr (igetattr (engine k P)) f cx)
             | _ \<Rightarrow> gen_stop)\<rparr>"

text \<open>The (owner, name) pairs for which a program declares something.\<close>

definition declared :: "program \<Rightarrow> vis" where
  "declared P = set (map fst (instance_attrs P)) \<union> set (map fst (class_attrs P))"

section \<open>Auxiliary notions for the proofs\<close>

text \<open>
  \<^verbatim>\<open>igetattr\<close> after the recursion guard: the lookup, the re-wrapping and the fallback,
  run from the visited set that holds the pushed pair.
\<close>

definition igetattr_rest :: "ext \<Rightarrow> node \<Rightarrow> name \<Rightarrow> ctx \<Rightarrow> node gen" where
  "igetattr_rest x p name c =
     gen_try
       (\<lambda>v1. case getattr x p name (Some c) False of
                Inl e \<Rightarrow> gen_raise e v1
              | Inr attrs \<Rightarrow>
                  (case wrap_attr x p (gen_list attrs) (Some c) v1 of
                     None \<Rightarrow> None
                   | Some (r, v2) \<Rightarrow> infer_stmts x r (Some c) (Instance p) v2))
       (\<lambda>e. if is_AttributeInferenceError e then
               Some (gen_try
                       (wrap_attr x p (class_igetattr x p name (Some c)) (Some c))
                       (\<lambda>e2. if is_AttributeInferenceError e2
                              then Some (gen_raise InferenceError) else None))
             else None)"

text \<open>
  A generator is total below \<open>k\<close> when it returns, and only adds to the visited set,
  from every visited set that misses fewer than \<open>k\<close> pairs of \<open>U\<close>.
\<close>

definition total_on :: "vis \<Rightarrow> nat \<Rightarrow> 'a gen \<Rightarrow> bool" where
  "total_on U k g = (\<forall>v. card (U - v) < k \<longrightarrow> (\<exists>r v'. g v = Some (r, v') \<and> v \<subseteq> v'))"

definition ext_total :: "vis \<Rightarrow> nat \<Rightarrow> ext \<Rightarrow> bool" where
  "ext_total U k x =
     ((\<forall>p n cx. total_on U k (class_igetattr x p n cx)) \<and>
      (\<forall>r cx fr. total_on U k (infer_stmts x r cx fr)) \<and>
      (\<forall>n cx. total_on U k (node_infer x n cx)) \<and>
      (\<forall>m caller c. total_on U k (node_infer_call_result x m caller (Some c))))"

section \<open>Example worlds\<close>

text \<open>
  \<^verbatim>\<open>class C: x = 2; def __init__(self): self.x = 1\<close>: the name \<open>x\<close> is declared on the
  instance and on the class.
\<close>

definition both_ext :: ext where
  "both_ext =
     base_ext
       \<lparr>instance_attr :=
          (\<lambda>p n cx. if p = ClassDef ''C'' \<and> n = ''x'' then Inr [Const ''1'']
                     else Inl (AttributeInferenceError p n NoCause)),
        class_getattr :=
          (\<lambda>p n cx. if p = ClassDef ''C'' \<and> n = ''x'' then Inr [Const ''2'']
                     else Inl (AttributeInferenceError p n NoCause))\<rparr>"

text \<open>\<^verbatim>\<open>class C\<close> whose instances get \<^verbatim>\<open>self.x = 1\<close>; the class declares no \<^verbatim>\<open>x\<close>.\<close>

definition instance_only_ext :: ext where
  "instance_only_ext =
     base_ext
       \<lparr>instance_attr :=
          (\<lambda>p n cx. if p = ClassDef ''C'' \<and> n = ''x'' then Inr [Const ''1'']
                     else Inl (AttributeInferenceError p n NoCause))\<rparr>"

text \<open>
  \<^verbatim>\<open>class C\<close> with two properties that return each other, \<^verbatim>\<open>a\<close> returning \<^verbatim>\<open>self.b\<close>
  and \<^verbatim>\<open>b\<close> returning \<^verbatim>\<open>self.a\<close>, and a property \<^verbatim>\<open>c\<close> that returns \<^verbatim>\<open>self.c\<close>.
\<close>

definition getter :: "string \<Rightarrow> func" where
  "getter nm =
     \<lparr>fname = nm, ftype = ''method'', decoratornames = [QName ''builtins.property''],
      frame_qname = ''C'', in_class_scope = True, argnames = [''self'']\<rparr>"

definition cyclic_program :: program where
  "cyclic_program =
     \<lparr>instance_attrs = [],
      class_attrs =
        [((ClassDef ''C'', ''a''), [FunctionDef (getter ''a'')]),
         ((ClassDef ''C'', ''b''), [FunctionDef (getter ''b'')]),
         ((ClassDef ''C'', ''c''), [FunctionDef (getter ''c'')])],
      returns =
        [(getter ''a'', [Attr Self ''b'']),
         (getter ''b'', [Attr Self ''a'']),
         (getter ''c'', [Attr Self ''c''])]\<rparr>"

text \<open>
  \<^verbatim>\<open>class C\<close> with a property \<^verbatim>\<open>size\<close> that returns \<^verbatim>\<open>3\<close> and a plain method \<^verbatim>\<open>me\<close>
  that returns its receiver.
\<close>

definition method_me :: func where
  "method_me =
     \<lparr>fname = ''me'', ftype = ''method'', decoratornames = [],
      frame_qname = ''C'', in_class_scope = True, argnames = [''self'']\<rparr>"

definition property_program :: program where
  "property_program =
     \<lparr>instance_attrs = [],
      class_attrs =
        [((ClassDef ''C'', ''size''), [FunctionDef (getter ''size'')]),
         ((ClassDef ''C'', ''me''), [FunctionDef method_me])],
      returns =
        [(getter ''size'', [Lit (Const ''3'')]),
         (method_me, [Self])]\<rparr>"

text \<open>
  The linear chain \<^verbatim>\<open>class A(object)\<close>, \<^verbatim>\<open>class B(A)\<close>, \<^verbatim>\<open>class C(B)\<close>, and a class
  \<^verbatim>\<open>D(object)\<close> outside it. \<^verbatim>\<open>A\<close> declares a class method \<^verbatim>\<open>make\<close>, a method \<^verbatim>\<open>run\<close> and a
  static method \<^verbatim>\<open>helper\<close>. A super object has the special attribute \<^verbatim>\<open>__class__\<close>.
\<close>

definition chain_function :: "string \<Rightarrow> string \<Rightarrow> func" where
  "chain_function nm ty =
     \<lparr>fname = nm, ftype = ty, decoratornames = [],
      frame_qname = ''A'', in_class_scope = True, argnames = [''self'']\<rparr>"

definition chain_ext :: ext where
  "chain_ext =
     base_ext
       \<lparr>special_attributes :=
          (\<lambda>s n. case s of
                    Super ptr ty cb sc sp \<Rightarrow>
                      if n = ''__class__'' then Some (ClassDef ''builtins.super'') else None
                  | _ \<Rightarrow> None),
        class_locals :=
          (\<lambda>p n. if p = ClassDef ''A'' \<and> n = ''make''
                    then Some (FunctionDef (chain_function ''make'' ''classmethod''))
                  else if p = ClassDef ''A'' \<and> n = ''run''
                    then Some (FunctionDef (chain_function ''run'' ''method''))
                  else if p = ClassDef ''A'' \<and> n = ''helper''
                    then Some (FunctionDef (chain_function ''helper'' ''staticmethod''))
                  else None),
        mro :=
          (\<lambda>p. if p = ClassDef ''C''
                  then Inr [ClassDef ''C'', ClassDef ''B'', ClassDef ''A'', ClassDef ''object'']
                else if p = ClassDef ''B''
                  then Inr [ClassDef ''B'', ClassDef ''A'', ClassDef ''object'']
                else if p = ClassDef ''A'' then Inr [ClassDef ''A'', ClassDef ''object'']
                else if p = ClassDef ''object'' then Inr [ClassDef ''object'']
                else Inr [p, ClassDef ''object''])\<rparr>"

text \<open>\<^verbatim>\<open>super(B, self)\<close> in a method of \<^verbatim>\<open>C\<close>, and the malformed \<^verbatim>\<open>super(D, self)\<close>.\<close>

definition super_B_C :: node where
  "super_B_C =
     Super (ClassDef ''B'') (Instance (ClassDef ''C'')) False (ClassDef ''C'')
       (chain_function ''f'' ''method'')"

definition super_D_C :: node where
  "super_D_C =
     Super (ClassDef ''D'') (Instance (ClassDef ''C'')) False (ClassDef ''C'')
       (chain_function ''f'' ''method'')"



section \<open>Auxiliary facts\<close>

lemma igetattr_unfold:
  "igetattr x p n (Some c) v =
     (if (p, n) \<in> v then Some (([], None), v) else igetattr_rest x p n c (insert (p, n) v))"
  by (simp add: igetattr_def igetattr_rest_def with_context_def gen_try_def push_def gen_stop_def)

lemma card_diff_mono: "finite U \<Longrightarrow> v \<subseteq> v' \<Longrightarrow> card (U - v') \<le> card (U - v)"
  by (rule card_mono) auto

lemma total_stop: "total_on U k gen_stop"
  by (simp add: total_on_def gen_stop_def)

lemma total_yield: "total_on U k (gen_yield a)"
  by (simp add: total_on_def gen_yield_def)

lemma total_raise: "total_on U k (gen_raise e)"
  by (simp add: total_on_def gen_raise_def)

lemma total_list: "total_on U k (gen_list as)"
  by (simp add: total_on_def gen_list_def)

lemma total_run_then:
  assumes fin: "finite U" and g: "total_on U k g" and c: "card (U - v) < k" and sub: "v \<subseteq> v1"
  shows "\<exists>r' v'. run_then (r, v1) g = Some (r', v') \<and> v \<subseteq> v'"
proof (cases r)
  case (Pair ys e)
  show ?thesis
  proof (cases e)
    case None
    have "card (U - v1) < k" using card_diff_mono [OF fin sub] c by simp
    then obtain r2 v2 where "g v1 = Some (r2, v2)" "v1 \<subseteq> v2"
      using g by (auto simp: total_on_def)
    then show ?thesis using Pair None sub
      by (cases r2) (auto simp: run_then_def)
  next
    case (Some err)
    then show ?thesis using Pair sub by (simp add: run_then_def)
  qed
qed

lemma total_seq:
  assumes fin: "finite U" and g1: "total_on U k g1" and g2: "total_on U k g2"
  shows "total_on U k (gen_seq g1 g2)"
  unfolding total_on_def
proof (intro allI impI)
  fix v assume c: "card (U - v) < k"
  then obtain r v1 where r: "g1 v = Some (r, v1)" "v \<subseteq> v1"
    using g1 by (auto simp: total_on_def)
  show "\<exists>r' v'. gen_seq g1 g2 v = Some (r', v') \<and> v \<subseteq> v'"
    using total_run_then [OF fin g2 c r(2), of r] r(1) by (simp add: gen_seq_def)
qed

lemma total_each:
  assumes fin: "finite U" and b: "\<And>a. total_on U k (body a)"
  shows "total_on U k (gen_each as body)"
  by (induction as) (simp_all add: total_stop total_seq [OF fin] b)

lemma total_for:
  assumes fin: "finite U" and g: "total_on U k g" and b: "\<And>a. total_on U k (body a)"
  shows "total_on U k (gen_for g body)"
  unfolding total_on_def
proof (intro allI impI)
  fix v assume c: "card (U - v) < k"
  then obtain r v1 where r: "g v = Some (r, v1)" "v \<subseteq> v1"
    using g by (auto simp: total_on_def)
  obtain as e where re: "r = (as, e)" by (cases r)
  have c1: "card (U - v1) < k" using card_diff_mono [OF fin r(2)] c by simp
  have "total_on U k (gen_seq (gen_each as body) (case e of None \<Rightarrow> gen_stop | Some err \<Rightarrow> gen_raise err))"
    by (intro total_seq [OF fin] total_each [OF fin] b) (simp add: total_stop total_raise split: option.split)
  then obtain r' v' where "gen_seq (gen_each as body) (case e of None \<Rightarrow> gen_stop | Some err \<Rightarrow> gen_raise err) v1 = Some (r', v')" "v1 \<subseteq> v'"
    using c1 by (auto simp: total_on_def)
  then show "\<exists>r' v'. gen_for g body v = Some (r', v') \<and> v \<subseteq> v'"
    using r re by (auto simp: gen_for_def)
qed

lemma total_try:
  assumes fin: "finite U" and g: "total_on U k g"
    and h: "\<And>e h. handler e = Some h \<Longrightarrow> total_on U k h"
  shows "total_on U k (gen_try g handler)"
  unfolding total_on_def
proof (intro allI impI)
  fix v assume c: "card (U - v) < k"
  then obtain r v1 where r: "g v = Some (r, v1)" "v \<subseteq> v1"
    using g by (auto simp: total_on_def)
  obtain ys e where re: "r = (ys, e)" by (cases r)
  show "\<exists>r' v'. gen_try g handler v = Some (r', v') \<and> v \<subseteq> v'"
  proof (cases e)
    case None
    then show ?thesis using r re by (simp add: gen_try_def)
  next
    case (Some err)
    show ?thesis
    proof (cases "handler err")
      case None
      then show ?thesis using r re Some by (simp add: gen_try_def)
    next
      case (Some hd)
      from total_run_then [OF fin h [OF Some] c r(2), of "(ys, None)"]
      show ?thesis using r re Some \<open>e = Some err\<close> by (simp add: gen_try_def)
    qed
  qed
qed

lemma total_unbound:
  assumes fin: "finite U" and x: "ext_total U k x"
  shows "total_on U k (unbound_infer_call_result x m caller (Some c))"
proof -
  have ni: "\<And>n cx. total_on U k (node_infer x n cx)"
    and icr: "\<And>caller. total_on U k (node_infer_call_result x m caller (Some c))"
    using x by (auto simp: ext_total_def)
  show ?thesis
    unfolding unbound_infer_call_result_def
    by (auto split: node.split list.split
          intro!: total_for [OF fin] total_yield total_stop total_raise ni icr)
qed

lemma total_bound:
  assumes fin: "finite U" and x: "ext_total U k x"
  shows "total_on U k (bound_infer_call_result x m b caller (Some c))"
proof -
  have "bound_infer_call_result x m b caller (Some c) =
        unbound_infer_call_result x m caller (Some ((clone c)\<lparr>boundnode := Some b\<rparr>))"
    by (rule ext) (simp add: bound_infer_call_result_def with_context_def)
  then show ?thesis using total_unbound [OF fin x] by simp
qed

lemma total_wrap_one:
  assumes fin: "finite U" and x: "ext_total U k x"
  shows "total_on U k (wrap_one x p (Some c) attr)"
  unfolding wrap_one_def
  by (auto split: node.split
        intro!: total_yield total_raise total_unbound [OF fin x] total_bound [OF fin x])

lemma total_wrap_attr:
  assumes fin: "finite U" and x: "ext_total U k x" and g: "total_on U k g"
  shows "total_on U k (wrap_attr x p g (Some c))"
  unfolding wrap_attr_def
  by (rule total_for [OF fin g]) (rule total_wrap_one [OF fin x])

lemma total_rest:
  assumes fin: "finite U" and x: "ext_total U k x"
  shows "total_on U k (igetattr_rest x p n c)"
proof -
  have ci: "total_on U k (class_igetattr x p n (Some c))"
    and st: "\<And>r. total_on U k (infer_stmts x r (Some c) (Instance p))"
    using x by (auto simp: ext_total_def)
  have first: "total_on U k
     (\<lambda>v1. case getattr x p n (Some c) False of
              Inl e \<Rightarrow> gen_raise e v1
            | Inr attrs \<Rightarrow>
                (case wrap_attr x p (gen_list attrs) (Some c) v1 of
                   None \<Rightarrow> None
                 | Some (r, v2) \<Rightarrow> infer_stmts x r (Some c) (Instance p) v2))"
  proof (cases "getattr x p n (Some c) False")
    case (Inl e)
    then show ?thesis using total_raise [of U k e] by (simp add: total_on_def)
  next
    case (Inr attrs)
    show ?thesis
      unfolding total_on_def
    proof (intro allI impI)
      fix v assume c: "card (U - v) < k"
      have "total_on U k (wrap_attr x p (gen_list attrs) (Some c))"
        by (rule total_wrap_attr [OF fin x total_list])
      then obtain r v2 where w: "wrap_attr x p (gen_list attrs) (Some c) v = Some (r, v2)" "v \<subseteq> v2"
        using c by (auto simp: total_on_def)
      have "card (U - v2) < k" using card_diff_mono [OF fin w(2)] c by simp
      then obtain r' v' where "infer_stmts x r (Some c) (Instance p) v2 = Some (r', v')" "v2 \<subseteq> v'"
        using st [of r] by (auto simp: total_on_def)
      then show "\<exists>r' v'. (case getattr x p n (Some c) False of
              Inl e \<Rightarrow> gen_raise e v
            | Inr attrs \<Rightarrow>
                (case wrap_attr x p (gen_list attrs) (Some c) v of
                   None \<Rightarrow> None
                 | Some (r, v2) \<Rightarrow> infer_stmts x r (Some c) (Instance p) v2)) = Some (r', v') \<and> v \<subseteq> v'"
        using Inr w by auto
    qed
  qed
  show ?thesis
    unfolding igetattr_rest_def
    by (rule total_try [OF fin first])
       (auto split: if_splits intro!: total_try [OF fin] total_wrap_attr [OF fin x ci] total_raise)
qed

lemma total_infer_expr:
  assumes fin: "finite U" and ig: "\<And>p n. total_on U k (ig p n cx)"
  shows "total_on U k (infer_expr ig f cx e)"
  by (induction e)
     (auto split: node.split intro!: total_yield total_for [OF fin] ig)

lemma program_ext_fields:
  "class_igetattr (engine k P) = class_igetattr (program_ext P)"
  "infer_stmts (engine k P) = infer_stmts (program_ext P)"
  "node_infer (engine k P) = node_infer (program_ext P)"
  "instance_attr (engine k P) = instance_attr (program_ext P)"
  "special_attributes (engine k P) = special_attributes (program_ext P)"
  by (cases k; simp)+

lemma engine_ext_total:
  assumes fin: "finite U"
    and ih: "\<And>p n c. total_on U k (igetattr (engine k P) p n (Some c))"
  shows "ext_total U k (engine (Suc k) P)"
proof -
  have a: "\<And>p n cx. total_on U k (class_igetattr (program_ext P) p n cx)"
    by (auto simp: program_ext_def split: sum.split intro: total_raise total_list)
  have b: "\<And>r cx fr. total_on U k (infer_stmts (program_ext P) r cx fr)"
    by (auto simp: program_ext_def total_on_def split: prod.split list.split option.split)
  have c: "\<And>n cx. total_on U k (node_infer (program_ext P) n cx)"
    by (simp add: program_ext_def base_ext_def total_yield)
  have d: "\<And>m caller c. total_on U k (node_infer_call_result (engine (Suc k) P) m caller (Some c))"
    by (auto split: node.split intro!: total_stop total_each [OF fin] total_infer_expr [OF fin] ih)
  show ?thesis
    unfolding ext_total_def program_ext_fields using a b c d by blast
qed

lemma rest_undeclared:
  assumes "(p, n) \<notin> declared P"
  shows "igetattr_rest (engine k P) p n c v = Some (([], Some InferenceError), v)"
proof -
  have i: "map_of (instance_attrs P) (p, n) = None" and j: "map_of (class_attrs P) (p, n) = None"
    using assms by (auto simp: declared_def map_of_eq_None_iff)
  have g: "getattr (engine k P) p n (Some c) False = Inl (AttributeInferenceError (Instance p) n NoCause)"
    by (simp add: getattr_def program_ext_fields program_ext_def base_ext_def table_getattr_def i)
  have ci: "class_igetattr (engine k P) p n (Some c) = gen_raise (AttributeInferenceError p n NoCause)"
    by (simp add: program_ext_fields program_ext_def table_getattr_def j)
  show ?thesis
    by (simp add: igetattr_rest_def g ci gen_try_def gen_raise_def wrap_attr_def gen_for_def
          gen_seq_def gen_stop_def run_then_def)
qed

lemma finite_declared: "finite (declared P)"
  by (simp add: declared_def)

lemma card_declared: "card (declared P) \<le> length (instance_attrs P) + length (class_attrs P)"
proof -
  have "card (declared P) \<le> card (set (map fst (instance_attrs P))) + card (set (map fst (class_attrs P)))"
    unfolding declared_def by (rule card_Un_le)
  also have "\<dots> \<le> length (map fst (instance_attrs P)) + length (map fst (class_attrs P))"
    by (intro add_mono card_length)
  finally show ?thesis by simp
qed

lemma igetattr_total_step:
  assumes x: "ext_total (declared P) k (engine (Suc k) P)"
    and small: "card (declared P - v) < Suc k"
  shows "\<exists>r v'. igetattr (engine (Suc k) P) p n (Some c) v = Some (r, v') \<and> insert (p, n) v \<subseteq> v'"
proof (cases "(p, n) \<in> v")
  case True
  then show ?thesis by (auto simp: igetattr_unfold)
next
  case False
  show ?thesis
  proof (cases "(p, n) \<in> declared P")
    case True
    have "card (declared P - insert (p, n) v) < card (declared P - v)"
      by (rule psubset_card_mono) (use True False finite_declared in auto)
    then have "card (declared P - insert (p, n) v) < k" using small by simp
    then obtain r v' where "igetattr_rest (engine (Suc k) P) p n c (insert (p, n) v) = Some (r, v')"
      "insert (p, n) v \<subseteq> v'"
      using total_rest [OF finite_declared x, of p n c] by (auto simp: total_on_def)
    then show ?thesis using False by (auto simp: igetattr_unfold simp del: engine.simps)
  next
    case nd: False
    show ?thesis using False rest_undeclared [OF nd, of "Suc k" c "insert (p, n) v"]
      by (auto simp: igetattr_unfold simp del: engine.simps)
  qed
qed

lemma engine_total: "total_on (declared P) k (igetattr (engine k P) p n (Some c))"
proof (induction k arbitrary: p n c)
  case 0
  show ?case by (simp add: total_on_def)
next
  case (Suc k)
  have x: "ext_total (declared P) k (engine (Suc k) P)"
    by (rule engine_ext_total [OF finite_declared]) (rule Suc.IH)
  show ?case
    unfolding total_on_def
  proof (intro allI impI)
    fix v assume "card (declared P - v) < Suc k"
    from igetattr_total_step [OF x this, of p n c]
    show "\<exists>r v'. igetattr (engine (Suc k) P) p n (Some c) v = Some (r, v') \<and> v \<subseteq> v'"
      by blast
  qed
qed

lemma engine_pushes:
  assumes small: "card (declared P - v) < k"
  shows "\<exists>r v'. igetattr (engine k P) p n (Some c) v = Some (r, v') \<and> insert (p, n) v \<subseteq> v'"
proof (cases k)
  case 0
  then show ?thesis using small by simp
next
  case (Suc j)
  have x: "ext_total (declared P) j (engine (Suc j) P)"
    by (rule engine_ext_total [OF finite_declared]) (rule engine_total)
  show ?thesis
    unfolding Suc by (rule igetattr_total_step [OF x]) (use small Suc in simp)
qed

lemma enough_fuel:
  assumes "length (instance_attrs P) + length (class_attrs P) < k"
  shows "card (declared P - v) < k"
proof -
  have "card (declared P - v) \<le> card (declared P)"
    by (rule card_mono) (auto simp: finite_declared)
  then show ?thesis using card_declared [of P] assms by simp
qed

lemma run_then_stop [simp]: "run_then ((ys, None), v) gen_stop = Some ((ys, None), v)"
  by (simp add: run_then_def gen_stop_def)

lemma gen_seq_stop_right [simp]: "gen_seq g gen_stop = g"
  by (rule ext) (auto simp: gen_seq_def gen_stop_def run_then_def split: option.splits prod.splits)

lemma gen_seq_stop_left [simp]: "gen_seq gen_stop g = g"
  by (rule ext) (auto simp: gen_seq_def gen_stop_def run_then_def split: option.splits prod.splits)

lemma gen_seq_assoc: "gen_seq (gen_seq g1 g2) g3 = gen_seq g1 (gen_seq g2 g3)"
  by (rule ext) (auto simp: gen_seq_def run_then_def split: option.splits prod.splits)

lemma gen_each_append: "gen_each (as @ bs) body = gen_seq (gen_each as body) (gen_each bs body)"
  by (induction as) (simp_all add: gen_seq_assoc)

lemma wrap_attr_list: "wrap_attr x p (gen_list as) cx = gen_each as (wrap_one x p cx)"
  by (rule ext) (simp add: wrap_attr_def gen_for_def gen_list_def)

lemma stripped_iff: "t \<in> set (stripped ds) \<longleftrightarrow> (\<exists>s. QName s \<in> set ds \<and> last_component s = t)"
  by (induction ds) (auto simp: stripped_def split: dname.splits)

lemma is_property_iff:
  "is_property x f \<longleftrightarrow>
     QName (BUILTINS x @ ''.property'') \<in> set (decoratornames f) \<or>
     QName ''abc.abstractproperty'' \<in> set (decoratornames f) \<or>
     (\<exists>s. QName s \<in> set (decoratornames f) \<and> last_component s \<in> set POSSIBLE_PROPERTIES)"
  by (auto simp: is_property_def PROPERTIES_def list_ex_iff stripped_iff)

lemma igetattr_fresh:
  "igetattr x p n None v =
     (case igetattr_rest x p n InferenceContext {(p, n)} of
        None \<Rightarrow> None
      | Some (r, v1) \<Rightarrow> Some (r, v))"
  by (simp add: igetattr_def igetattr_rest_def with_context_def gen_try_def push_def)

lemma rest_instance_miss:
  assumes "getattr x p n (Some c) False = Inl e" and "is_AttributeInferenceError e"
  shows "igetattr_rest x p n c v =
     gen_try (wrap_attr x p (class_igetattr x p n (Some c)) (Some c))
       (\<lambda>e2. if is_AttributeInferenceError e2 then Some (gen_raise InferenceError) else None) v"
  using assms
  by (simp add: igetattr_rest_def gen_try_def gen_raise_def run_then_def split: option.split prod.split)

lemma index_of_first: "a \<notin> set before \<Longrightarrow> index_of (before @ a # after) a = length before"
  by (induction before) (auto simp: index_of_def)

lemma mro_after_pointer_cases:
  "(\<not> newstyle x (forwarded target) \<longrightarrow>
      mro_after_pointer x s target = (Inl (SuperError OldStyleClass s), s)) \<and>
   (newstyle x (forwarded target) \<and> mro x (forwarded target) = Inr m \<and> mro_pointer s \<notin> set m \<longrightarrow>
      mro_after_pointer x s target = (Inl (SuperError PointerNotInMro s), s)) \<and>
   (newstyle x (forwarded target) \<and> mro x (forwarded target) = Inr (before @ mro_pointer s # after) \<and>
    mro_pointer s \<notin> set before \<longrightarrow>
      mro_after_pointer x s target = (Inr after, s))"
  by (simp add: mro_after_pointer_def index_of_first)





lemma forwarded_ClassDef: "is_ClassDef t \<Longrightarrow> forwarded t = t"
  by (cases t) simp_all




section \<open>Properties\<close>

text \<open>
  C1. For a class with an instance-level attribute and a class-level attribute of the
  same name, \<^verbatim>\<open>getattr(name, context, lookupclass=True)\<close> returns the instance-level
  declarations followed by the class-level declarations.
\<close>

theorem getattr_concatenates:
  assumes "instance_attr x p n cx = Inr vals"
    and "class_getattr x p n cx = Inr cvals"
  shows "getattr x p n cx True = Inr (vals @ cvals)"
  using assms by (simp add: getattr_def)

theorem getattr_concatenates_witness:
  "getattr both_ext (ClassDef ''C'') ''x'' None True = Inr [Const ''1'', Const ''2'']"
proof -
  have i: "instance_attr both_ext (ClassDef ''C'') ''x'' None = Inr [Const ''1'']"
    by (simp add: both_ext_def)
  have c: "class_getattr both_ext (ClassDef ''C'') ''x'' None = Inr [Const ''2'']"
    by (simp add: both_ext_def)
  show ?thesis
    using getattr_concatenates [OF i c] by simp
qed

text \<open>
  C2. \<^verbatim>\<open>igetattr\<close> pushes the pair of the proxied class and the name onto the visited
  set of the context before it looks anything up, and yields nothing when the pair is
  already there. So it returns, with a finite sequence, also where the property
  getters of a class refer back to one another: in the model of function-call
  inference, for every program, every class, name, context and visited set, once the
  fuel exceeds the number of declarations of the program.
\<close>

theorem igetattr_recursion_guard:
  "((p, n) \<in> v \<longrightarrow> igetattr x p n (Some c) v = Some (([], None), v)) \<and>
   ((p, n) \<notin> v \<longrightarrow> igetattr x p n (Some c) v = igetattr_rest x p n c (insert (p, n) v)) \<and>
   (length (instance_attrs P) + length (class_attrs P) < k \<longrightarrow>
      (\<exists>r v'. igetattr (engine k P) p n (Some c) v = Some (r, v') \<and> insert (p, n) v \<subseteq> v') \<and>
      (\<exists>r. igetattr (engine k P) p n None v = Some (r, v)))"
proof (intro conjI impI)
  show "(p, n) \<in> v \<Longrightarrow> igetattr x p n (Some c) v = Some (([], None), v)"
    by (simp add: igetattr_unfold)
  show "(p, n) \<notin> v \<Longrightarrow> igetattr x p n (Some c) v = igetattr_rest x p n c (insert (p, n) v)"
    by (simp add: igetattr_unfold)
next
  assume k: "length (instance_attrs P) + length (class_attrs P) < k"
  show "\<exists>r v'. igetattr (engine k P) p n (Some c) v = Some (r, v') \<and> insert (p, n) v \<subseteq> v'"
    by (rule engine_pushes) (rule enough_fuel [OF k])
  obtain r v' where "igetattr (engine k P) p n (Some InferenceContext) {} = Some (r, v')"
    using engine_pushes [of P "{}" k p n InferenceContext] enough_fuel [OF k, of "{}"] by blast
  moreover have "igetattr y p n None v =
      (case igetattr y p n (Some InferenceContext) {} of
         None \<Rightarrow> None
       | Some (r, v1) \<Rightarrow> Some (r, v))" for y
    by (simp add: igetattr_def with_context_def)
  ultimately show "\<exists>r. igetattr (engine k P) p n None v = Some (r, v)"
    by simp
qed

theorem igetattr_recursion_guard_witness:
  "igetattr base_ext (ClassDef ''C'') ''a'' (Some InferenceContext) {(ClassDef ''C'', ''a'')}
     = Some (([], None), {(ClassDef ''C'', ''a'')}) \<and>
   (\<exists>r. igetattr (engine 4 cyclic_program) (ClassDef ''C'') ''a'' None {} = Some (r, {}))"
  using igetattr_recursion_guard
          [of "ClassDef ''C''" "''a''" "{(ClassDef ''C'', ''a'')}" base_ext InferenceContext
              cyclic_program 4]
        igetattr_recursion_guard
          [of "ClassDef ''C''" "''a''" "{}" base_ext InferenceContext cyclic_program 4]
  by (simp add: cyclic_program_def)

text \<open>
  The two-hop cycle and the direct cycle of the example class, evaluated: both lookups
  return and yield nothing.
\<close>

lemma cyclic_two_hops:
  "igetattr (engine 4 cyclic_program) (ClassDef ''C'') ''a'' None {} = Some (([], None), {})"
  by code_simp

lemma cyclic_direct:
  "igetattr (engine 4 cyclic_program) (ClassDef ''C'') ''c'' None {} = Some (([], None), {})"
  by code_simp

text \<open>
  C3. \<^verbatim>\<open>super_mro\<close> checks, in this order, that \<^verbatim>\<open>mro_pointer\<close> is a class, that the
  type is a class or proxies an instance or a class, that the resolved target is
  new-style, and that \<^verbatim>\<open>mro_pointer\<close> is in the target's MRO, and raises \<^verbatim>\<open>SuperError\<close>
  at the first check that fails; otherwise it returns the part of the MRO after the
  first occurrence of \<^verbatim>\<open>mro_pointer\<close>. For a chain where the MRO of \<open>C\<close> is
  \<open>[C, B, A, object]\<close>, the super object of \<open>B\<close> and an instance of \<open>C\<close> has the MRO
  \<open>[A, object]\<close>.
\<close>

theorem super_mro_validates_then_slices:
  "(\<not> is_ClassDef (mro_pointer s) \<longrightarrow>
      super_mro x s = (Inl (SuperError FirstArgument s), s)) \<and>
   (is_ClassDef (mro_pointer s) \<and> \<not> is_ClassDef (mro_type s) \<and>
    (proxied_attr x (mro_type s) = None \<or>
     (\<exists>q. proxied_attr x (mro_type s) = Some q \<and> \<not> is_Instance q \<and> \<not> is_ClassDef q)) \<longrightarrow>
      super_mro x s = (Inl (SuperError SecondArgument s), s)) \<and>
   (is_ClassDef (mro_pointer s) \<and>
    (is_ClassDef (mro_type s) \<and> target = mro_type s \<or>
     \<not> is_ClassDef (mro_type s) \<and> proxied_attr x (mro_type s) = Some target \<and>
       (is_Instance target \<or> is_ClassDef target)) \<longrightarrow>
      (\<not> newstyle x (forwarded target) \<longrightarrow>
         (\<exists>sobj. fst (super_mro x s) = Inl (SuperError OldStyleClass sobj))) \<and>
      (newstyle x (forwarded target) \<and> mro x (forwarded target) = Inr m \<and>
       mro_pointer s \<notin> set m \<longrightarrow>
         (\<exists>sobj. fst (super_mro x s) = Inl (SuperError PointerNotInMro sobj))) \<and>
      (newstyle x (forwarded target) \<and>
       mro x (forwarded target) = Inr (before @ mro_pointer s # after) \<and>
       mro_pointer s \<notin> set before \<longrightarrow>
         fst (super_mro x s) = Inr after)) \<and>
   (newstyle x (ClassDef C) \<and> B \<noteq> C \<and>
    mro x (ClassDef C) = Inr [ClassDef C, ClassDef B, ClassDef A, ClassDef obj] \<longrightarrow>
      fst (super_mro x (Super (ClassDef B) (Instance (ClassDef C)) cb (ClassDef C) f))
        = Inr [ClassDef A, ClassDef obj])"
proof (intro conjI impI)
  show "\<not> is_ClassDef (mro_pointer s) \<Longrightarrow> super_mro x s = (Inl (SuperError FirstArgument s), s)"
    by (simp add: super_mro_def)
  show "is_ClassDef (mro_pointer s) \<and> \<not> is_ClassDef (mro_type s) \<and>
    (proxied_attr x (mro_type s) = None \<or>
     (\<exists>q. proxied_attr x (mro_type s) = Some q \<and> \<not> is_Instance q \<and> \<not> is_ClassDef q)) \<Longrightarrow>
      super_mro x s = (Inl (SuperError SecondArgument s), s)"
    by (auto simp: super_mro_def)
next
  assume t: "is_ClassDef (mro_pointer s) \<and>
    (is_ClassDef (mro_type s) \<and> target = mro_type s \<or>
     \<not> is_ClassDef (mro_type s) \<and> proxied_attr x (mro_type s) = Some target \<and>
       (is_Instance target \<or> is_ClassDef target))"
  then obtain s1 where s1: "super_mro x s = mro_after_pointer x s1 target" "mro_pointer s1 = mro_pointer s"
    by (auto simp: super_mro_def)
  {
    assume "\<not> newstyle x (forwarded target)"
    then show "\<exists>sobj. fst (super_mro x s) = Inl (SuperError OldStyleClass sobj)"
      using mro_after_pointer_cases [where x = x and target = target and s = s1] s1 by auto
  }
  {
    assume "newstyle x (forwarded target) \<and> mro x (forwarded target) = Inr m \<and>
       mro_pointer s \<notin> set m"
    then show "\<exists>sobj. fst (super_mro x s) = Inl (SuperError PointerNotInMro sobj)"
      using mro_after_pointer_cases [where x = x and target = target and s = s1 and m = m] s1 by auto
  }
  {
    assume "newstyle x (forwarded target) \<and>
       mro x (forwarded target) = Inr (before @ mro_pointer s # after) \<and>
       mro_pointer s \<notin> set before"
    then show "fst (super_mro x s) = Inr after"
      using mro_after_pointer_cases [where x = x and target = target and s = s1 and before = before and after = after] s1 by auto
  }
next
  assume "newstyle x (ClassDef C) \<and> B \<noteq> C \<and>
    mro x (ClassDef C) = Inr [ClassDef C, ClassDef B, ClassDef A, ClassDef obj]"
  then show "fst (super_mro x (Super (ClassDef B) (Instance (ClassDef C)) cb (ClassDef C) f))
        = Inr [ClassDef A, ClassDef obj]"
    by (auto simp: super_mro_def proxied_attr_def mro_after_pointer_def index_of_def)
qed

theorem super_mro_validates_then_slices_witness:
  "super_mro chain_ext super_B_C = (Inr [ClassDef ''A'', ClassDef ''object''], super_B_C) \<and>
   (\<exists>sobj. fst (super_mro chain_ext super_D_C) = Inl (SuperError PointerNotInMro sobj))"
proof -
  have a: "fst (super_mro chain_ext super_B_C) = Inr [ClassDef ''A'', ClassDef ''object'']"
    unfolding super_B_C_def
    using super_mro_validates_then_slices
      [where x = chain_ext and C = "''C''" and B = "''B''" and A = "''A''" and obj = "''object''"
         and cb = False and f = "chain_function ''f'' ''method''"]
    by (simp add: chain_ext_def base_ext_def)
  have s: "snd (super_mro chain_ext super_B_C) = super_B_C"
    by code_simp
  have b: "\<exists>sobj. fst (super_mro chain_ext super_D_C) = Inl (SuperError PointerNotInMro sobj)"
    using super_mro_validates_then_slices
      [where x = chain_ext and s = super_D_C and target = "ClassDef ''C''"
         and m = "[ClassDef ''C'', ClassDef ''B'', ClassDef ''A'', ClassDef ''object'']"]
    by (simp add: chain_ext_def base_ext_def super_D_C_def proxied_attr_def)
  show ?thesis using a s b by (simp add: prod_eq_iff)
qed



text \<open>
  C5 (amended). For a super object whose \<^verbatim>\<open>super_mro\<close> raises \<^verbatim>\<open>SuperError\<close> or
  \<^verbatim>\<open>MroError\<close>, in particular one whose \<^verbatim>\<open>mro_pointer\<close> is not in the MRO of the class
  of its instance, and for every attribute name that is not a special attribute of the
  object, \<^verbatim>\<open>Super.igetattr\<close> yields nothing and fails with \<^verbatim>\<open>AttributeInferenceError\<close>,
  which carries what the handler copies from the original error. As the claim states
  it, for every attribute name, it fails: a special attribute is yielded before the
  MRO is computed, as the counterexample shows.
\<close>

theorem malformed_super_fails:
  "special_attributes x s n = None \<longrightarrow>
     (super_mro x s = (Inl (SuperError chk sobj), s1) \<longrightarrow>
        super_igetattr x s n cx v
          = Some (([], Some (AttributeInferenceError s1 n (SuperCause sobj))), v)) \<and>
     (super_mro x s = (Inl MroError, s1) \<longrightarrow>
        super_igetattr x s n cx v = Some (([], Some (AttributeInferenceError s1 n MroCause)), v)) \<and>
     (is_ClassDef (mro_pointer s) \<and> mro_type s = Instance target \<and> is_ClassDef target \<and>
      newstyle x target \<and> mro x target = Inr m \<and> mro_pointer s \<notin> set m \<longrightarrow>
        super_igetattr x s n cx v
          = Some (([], Some (AttributeInferenceError s n (SuperCause s))), v))"
proof (intro impI conjI)
  assume sp: "special_attributes x s n = None"
  {
    assume "super_mro x s = (Inl (SuperError chk sobj), s1)"
    then show "super_igetattr x s n cx v
          = Some (([], Some (AttributeInferenceError s1 n (SuperCause sobj))), v)"
      by (simp add: super_igetattr_def sp gen_raise_def)
  }
  {
    assume "super_mro x s = (Inl MroError, s1)"
    then show "super_igetattr x s n cx v = Some (([], Some (AttributeInferenceError s1 n MroCause)), v)"
      by (simp add: super_igetattr_def sp gen_raise_def)
  }
  {
    assume h: "is_ClassDef (mro_pointer s) \<and> mro_type s = Instance target \<and> is_ClassDef target \<and>
      newstyle x target \<and> mro x target = Inr m \<and> mro_pointer s \<notin> set m"
    then have "super_mro x s = (Inl (SuperError PointerNotInMro s), s)"
      by (simp add: super_mro_def proxied_attr_def mro_after_pointer_def forwarded_ClassDef)
    then show "super_igetattr x s n cx v
          = Some (([], Some (AttributeInferenceError s n (SuperCause s))), v)"
      by (simp add: super_igetattr_def sp gen_raise_def)
  }
qed

theorem malformed_super_fails_witness:
  "super_igetattr chain_ext super_D_C ''run'' None {}
     = Some (([], Some (AttributeInferenceError super_D_C ''run'' (SuperCause super_D_C))), {})"
proof -
  have sp: "special_attributes chain_ext super_D_C ''run'' = None"
    by (simp add: chain_ext_def super_D_C_def)
  have h: "is_ClassDef (mro_pointer super_D_C) \<and> mro_type super_D_C = Instance (ClassDef ''C'') \<and>
      is_ClassDef (ClassDef ''C'') \<and> newstyle chain_ext (ClassDef ''C'') \<and>
      mro chain_ext (ClassDef ''C'')
        = Inr [ClassDef ''C'', ClassDef ''B'', ClassDef ''A'', ClassDef ''object''] \<and>
      mro_pointer super_D_C
        \<notin> set [ClassDef ''C'', ClassDef ''B'', ClassDef ''A'', ClassDef ''object'']"
    by (simp add: chain_ext_def base_ext_def super_D_C_def)
  show ?thesis
    using malformed_super_fails
      [where x = chain_ext and s = super_D_C and n = "''run''" and target = "ClassDef ''C''"
         and m = "[ClassDef ''C'', ClassDef ''B'', ClassDef ''A'', ClassDef ''object'']"
         and cx = None and v = "{}"]
      sp h
    by blast
qed

theorem malformed_super_special_attribute_counterexample:
  "super_mro chain_ext super_D_C = (Inl (SuperError PointerNotInMro super_D_C), super_D_C) \<and>
   super_igetattr chain_ext super_D_C ''__class__'' None {}
     = Some (([ClassDef ''builtins.super''], None), {})"
  by code_simp




text \<open>
  C7. An \<^verbatim>\<open>UnboundMethod\<close> among the attributes that \<^verbatim>\<open>igetattr\<close> found is replaced by
  the results of calling it when its function is property-like, and by a
  \<^verbatim>\<open>BoundMethod\<close> of the function and the instance otherwise. A function is
  property-like when its decorator names hold \<^verbatim>\<open>builtins.property\<close> or
  \<^verbatim>\<open>abc.abstractproperty\<close>, or a name whose last component is in the list of possible
  property names. In particular a function of the class that is decorated with
  \<^verbatim>\<open>builtins.property\<close> yields its call result through \<^verbatim>\<open>igetattr\<close>.
\<close>

theorem property_is_called_method_is_bound:
  "(is_property x f \<longleftrightarrow>
      QName (BUILTINS x @ ''.property'') \<in> set (decoratornames f) \<or>
      QName ''abc.abstractproperty'' \<in> set (decoratornames f) \<or>
      (\<exists>s. QName s \<in> set (decoratornames f) \<and> last_component s \<in> set POSSIBLE_PROPERTIES)) \<and>
   wrap_attr x p (gen_list (pre @ UnboundMethod (FunctionDef f) # post)) cx =
     gen_seq (wrap_attr x p (gen_list pre) cx)
       (gen_seq
          (if is_property x f
           then unbound_infer_call_result x (FunctionDef f) (Instance p) cx
           else gen_yield (BoundMethod (FunctionDef f) (Instance p)))
          (wrap_attr x p (gen_list post) cx)) \<and>
   ((\<exists>t a c. instance_attr x p n (Some InferenceContext) = Inl (AttributeInferenceError t a c)) \<and>
    special_attributes x (Instance p) n = None \<and>
    class_igetattr x p n (Some InferenceContext) {(p, n)} =
      Some (([UnboundMethod (FunctionDef f)], None), v1) \<longrightarrow>
    (QName (BUILTINS x @ ''.property'') \<in> set (decoratornames f) \<and>
     unbound_infer_call_result x (FunctionDef f) (Instance p) (Some InferenceContext) v1 =
       Some ((ys, None), v2) \<longrightarrow>
     igetattr x p n None v = Some ((ys, None), v)) \<and>
    (\<not> is_property x f \<longrightarrow>
     igetattr x p n None v = Some (([BoundMethod (FunctionDef f) (Instance p)], None), v)))"
proof (intro conjI impI)
  show "is_property x f \<longleftrightarrow>
      QName (BUILTINS x @ ''.property'') \<in> set (decoratornames f) \<or>
      QName ''abc.abstractproperty'' \<in> set (decoratornames f) \<or>
      (\<exists>s. QName s \<in> set (decoratornames f) \<and> last_component s \<in> set POSSIBLE_PROPERTIES)"
    by (rule is_property_iff)
  show "wrap_attr x p (gen_list (pre @ UnboundMethod (FunctionDef f) # post)) cx =
     gen_seq (wrap_attr x p (gen_list pre) cx)
       (gen_seq
          (if is_property x f
           then unbound_infer_call_result x (FunctionDef f) (Instance p) cx
           else gen_yield (BoundMethod (FunctionDef f) (Instance p)))
          (wrap_attr x p (gen_list post) cx))"
    by (simp add: wrap_attr_list gen_each_append wrap_one_def)
next
  assume h: "(\<exists>t a c. instance_attr x p n (Some InferenceContext) = Inl (AttributeInferenceError t a c)) \<and>
    special_attributes x (Instance p) n = None \<and>
    class_igetattr x p n (Some InferenceContext) {(p, n)} =
      Some (([UnboundMethod (FunctionDef f)], None), v1)"
  then have g: "getattr x p n (Some InferenceContext) False
      = Inl (AttributeInferenceError (Instance p) n NoCause)"
    by (auto simp: getattr_def)
  have r: "igetattr_rest x p n InferenceContext w =
     gen_try (wrap_attr x p (class_igetattr x p n (Some InferenceContext)) (Some InferenceContext))
       (\<lambda>e2. if is_AttributeInferenceError e2 then Some (gen_raise InferenceError) else None) w" for w
    by (rule rest_instance_miss [OF g]) simp
  have w: "wrap_attr x p (class_igetattr x p n (Some InferenceContext)) (Some InferenceContext) {(p, n)} =
      wrap_one x p (Some InferenceContext) (UnboundMethod (FunctionDef f)) v1"
    using h by (simp add: wrap_attr_def gen_for_def)
  {
    assume "QName (BUILTINS x @ ''.property'') \<in> set (decoratornames f) \<and>
     unbound_infer_call_result x (FunctionDef f) (Instance p) (Some InferenceContext) v1 =
       Some ((ys, None), v2)"
    then show "igetattr x p n None v = Some ((ys, None), v)"
      by (simp add: igetattr_fresh r gen_try_def w wrap_one_def is_property_iff)
  }
  {
    assume "\<not> is_property x f"
    then show "igetattr x p n None v = Some (([BoundMethod (FunctionDef f) (Instance p)], None), v)"
      by (simp add: igetattr_fresh r gen_try_def w wrap_one_def gen_yield_def)
  }
qed

theorem property_is_called_method_is_bound_witness:
  "igetattr (engine 1 property_program) (ClassDef ''C'') ''size'' None {}
     = Some (([Const ''3''], None), {}) \<and>
   igetattr (engine 1 property_program) (ClassDef ''C'') ''me'' None {}
     = Some (([BoundMethod (FunctionDef method_me) (Instance (ClassDef ''C''))], None), {})"
proof -
  let ?x = "engine 1 property_program"
  let ?C = "ClassDef ''C''"
  have i: "\<exists>t a c. instance_attr ?x ?C n (Some InferenceContext) = Inl (AttributeInferenceError t a c)" for n
    by (simp add: program_ext_def property_program_def table_getattr_def)
  have s: "special_attributes ?x (Instance ?C) n = None" for n
    by (simp add: program_ext_def base_ext_def)
  have c1: "class_igetattr ?x ?C ''size'' (Some InferenceContext) {(?C, ''size'')}
      = Some (([UnboundMethod (FunctionDef (getter ''size''))], None), {(?C, ''size'')})"
    by code_simp
  have c2: "class_igetattr ?x ?C ''me'' (Some InferenceContext) {(?C, ''me'')}
      = Some (([UnboundMethod (FunctionDef method_me)], None), {(?C, ''me'')})"
    by code_simp
  have d: "QName (BUILTINS ?x @ ''.property'') \<in> set (decoratornames (getter ''size''))"
    by code_simp
  have u: "unbound_infer_call_result ?x (FunctionDef (getter ''size'')) (Instance ?C)
             (Some InferenceContext) {(?C, ''size'')}
      = Some (([Const ''3''], None), {(?C, ''size'')})"
    by code_simp
  have np: "\<not> is_property ?x method_me"
    by code_simp
  have a: "igetattr ?x ?C ''size'' None {} = Some (([Const ''3''], None), {})"
    using property_is_called_method_is_bound
      [where x = ?x and f = "getter ''size''" and p = ?C and n = "''size''"
         and ?v1.0 = "{(?C, ''size'')}" and ys = "[Const ''3'']" and ?v2.0 = "{(?C, ''size'')}"
         and v = "{}"]
      i s c1 d u by blast
  have b: "igetattr ?x ?C ''me'' None {}
     = Some (([BoundMethod (FunctionDef method_me) (Instance ?C)], None), {})"
    using property_is_called_method_is_bound
      [where x = ?x and f = method_me and p = ?C and n = "''me''"
         and ?v1.0 = "{(?C, ''me'')}" and v = "{}"]
      i s c2 np by blast
  show ?thesis using a b by simp
qed

text \<open>
  C8. Calling \<^verbatim>\<open>BoundMethod(F, bound=X)\<close> gives the run of calling \<^verbatim>\<open>UnboundMethod(F)\<close>
  with a context whose \<^verbatim>\<open>boundnode\<close> is \<open>X\<close>: the given context with that field set, or
  a new context with that field set when none is given.
\<close>

theorem bound_call_is_unbound_call_with_boundnode:
  "bound_infer_call_result x (FunctionDef F) X caller (Some c) v
     = unbound_infer_call_result x (FunctionDef F) caller (Some (c\<lparr>boundnode := Some X\<rparr>)) v \<and>
   bound_infer_call_result x (FunctionDef F) X caller None v
     = (case unbound_infer_call_result x (FunctionDef F) caller
               (Some (InferenceContext\<lparr>boundnode := Some X\<rparr>)) {} of
          None \<Rightarrow> None
        | Some (r, v1) \<Rightarrow> Some (r, v))"
  by (simp add: bound_infer_call_result_def with_context_def clone_def)

theorem bound_call_is_unbound_call_with_boundnode_witness:
  "bound_infer_call_result (engine 1 property_program) (FunctionDef method_me)
      (Instance (ClassDef ''D'')) (Call []) (Some InferenceContext) {}
     = Some (([Instance (ClassDef ''D'')], None), {})"
proof -
  have "unbound_infer_call_result (engine 1 property_program) (FunctionDef method_me) (Call [])
          (Some (InferenceContext\<lparr>boundnode := Some (Instance (ClassDef ''D''))\<rparr>)) {}
        = Some (([Instance (ClassDef ''D'')], None), {})"
    by code_simp
  then show ?thesis
    using bound_call_is_unbound_call_with_boundnode
            [of "engine 1 property_program" method_me "Instance (ClassDef ''D'')" "Call []"
                InferenceContext "{}"]
    by simp
qed

text \<open>
  C9. For a name that is declared neither on the instance nor among the special
  attributes, \<^verbatim>\<open>getattr(name, lookupclass=False)\<close> fails with
  \<^verbatim>\<open>AttributeInferenceError\<close>. \<^verbatim>\<open>igetattr(name)\<close> then runs the fallback through the
  class's \<^verbatim>\<open>igetattr\<close>: it yields what the fallback yields, and it fails with
  \<^verbatim>\<open>InferenceError\<close> in place of the fallback's \<^verbatim>\<open>AttributeInferenceError\<close>; where the
  class does not have the name either, it yields nothing and fails with
  \<^verbatim>\<open>InferenceError\<close>.
\<close>

theorem undeclared_name_fails:
  assumes inst: "\<forall>cx. \<exists>t a c. instance_attr x p n cx = Inl (AttributeInferenceError t a c)"
    and spec: "special_attributes x (Instance p) n = None"
  shows "getattr x p n cx False = Inl (AttributeInferenceError (Instance p) n NoCause) \<and>
     (\<forall>t a c v1.
        class_igetattr x p n (Some InferenceContext) {(p, n)} =
          Some (([], Some (AttributeInferenceError t a c)), v1) \<longrightarrow>
        igetattr x p n None v = Some (([], Some InferenceError), v)) \<and>
     (\<forall>ys e v1.
        wrap_attr x p (class_igetattr x p n (Some InferenceContext)) (Some InferenceContext) {(p, n)} =
          Some ((ys, e), v1) \<longrightarrow>
        igetattr x p n None v =
          Some ((ys, case e of
                       None \<Rightarrow> None
                     | Some err \<Rightarrow>
                         if is_AttributeInferenceError err then Some InferenceError else Some err), v))"
proof -
  have g: "getattr x p n cx False = Inl (AttributeInferenceError (Instance p) n NoCause)" for cx
  proof -
    from inst obtain t a c where "instance_attr x p n cx = Inl (AttributeInferenceError t a c)"
      by blast
    then show ?thesis using spec by (simp add: getattr_def)
  qed
  have r: "igetattr_rest x p n InferenceContext w =
     gen_try (wrap_attr x p (class_igetattr x p n (Some InferenceContext)) (Some InferenceContext))
       (\<lambda>e2. if is_AttributeInferenceError e2 then Some (gen_raise InferenceError) else None) w" for w
    by (rule rest_instance_miss [OF g]) simp
  show ?thesis
  proof (intro conjI allI impI)
    show "getattr x p n cx False = Inl (AttributeInferenceError (Instance p) n NoCause)"
      by (rule g)
  next
    fix t a c v1
    assume "class_igetattr x p n (Some InferenceContext) {(p, n)} =
          Some (([], Some (AttributeInferenceError t a c)), v1)"
    then show "igetattr x p n None v = Some (([], Some InferenceError), v)"
      by (simp add: igetattr_fresh r gen_try_def wrap_attr_def gen_for_def gen_seq_def
            gen_stop_def gen_raise_def run_then_def)
  next
    fix ys e v1
    assume "wrap_attr x p (class_igetattr x p n (Some InferenceContext)) (Some InferenceContext) {(p, n)} =
          Some ((ys, e), v1)"
    then show "igetattr x p n None v =
          Some ((ys, case e of
                       None \<Rightarrow> None
                     | Some err \<Rightarrow>
                         if is_AttributeInferenceError err then Some InferenceError else Some err), v)"
      by (cases e) (simp_all add: igetattr_fresh r gen_try_def gen_raise_def run_then_def)
  qed
qed

theorem undeclared_name_fails_witness:
  "getattr base_ext (ClassDef ''C'') ''x'' None False
     = Inl (AttributeInferenceError (Instance (ClassDef ''C'')) ''x'' NoCause) \<and>
   igetattr base_ext (ClassDef ''C'') ''x'' None {} = Some (([], Some InferenceError), {})"
proof -
  have i: "\<forall>cx. \<exists>t a c. instance_attr base_ext (ClassDef ''C'') ''x'' cx
             = Inl (AttributeInferenceError t a c)"
    by (simp add: base_ext_def)
  have s: "special_attributes base_ext (Instance (ClassDef ''C'')) ''x'' = None"
    by (simp add: base_ext_def)
  have c: "class_igetattr base_ext (ClassDef ''C'') ''x'' (Some InferenceContext)
             {(ClassDef ''C'', ''x'')}
     = Some (([], Some (AttributeInferenceError (ClassDef ''C'') ''x'' NoCause)),
             {(ClassDef ''C'', ''x'')})"
    by (simp add: base_ext_def gen_raise_def)
  show ?thesis
    using undeclared_name_fails [OF i s, of None "{}"] c by blast
qed

text \<open>
  C10. With \<^verbatim>\<open>lookupclass=True\<close>, when the instance-level lookup succeeds and the
  class-level lookup raises \<^verbatim>\<open>AttributeInferenceError\<close>, the error is swallowed and
  \<^verbatim>\<open>getattr\<close> returns exactly the instance-level values.
\<close>

theorem getattr_keeps_instance_values:
  assumes "instance_attr x p n cx = Inr vals"
    and "class_getattr x p n cx = Inl (AttributeInferenceError t a c)"
  shows "getattr x p n cx True = Inr vals"
  using assms by (simp add: getattr_def)

theorem getattr_keeps_instance_values_witness:
  "getattr instance_only_ext (ClassDef ''C'') ''x'' None True = Inr [Const ''1'']"
proof -
  have i: "instance_attr instance_only_ext (ClassDef ''C'') ''x'' None = Inr [Const ''1'']"
    by (simp add: instance_only_ext_def)
  have c: "class_getattr instance_only_ext (ClassDef ''C'') ''x'' None
             = Inl (AttributeInferenceError (ClassDef ''C'') ''x'' NoCause)"
    by (simp add: instance_only_ext_def base_ext_def)
  show ?thesis
    by (rule getattr_keeps_instance_values [OF i c])
qed

end
